theory Spec2Isabelle
  imports Complex_Main
begin

section \<open>Rhythm race: shallow embedding of the game core\<close>

text \<open>
  The sources are TypeScript (React with @react-three/fiber). A JavaScript \<open>number\<close> that
  holds a coordinate, a time, a score or a random draw is modelled as a HOL \<open>real\<close>
  (exact arithmetic, no rounding); counters that only ever hold natural numbers
  (note ids, lanes, \<open>raceId\<close>, timer handles, millisecond clock of the timer queue) are \<open>nat\<close>.
  A React state cell updated with a functional updater \<open>setX(p => f p)\<close> is modelled by
  the function \<open>f\<close> applied to the current value; callbacks of one frame are applied in
  the order in which the frame calls them.
\<close>

subsection \<open>Scores (App: \<open>handleScoreUpdate\<close>, \<open>onAiScoreUpdate\<close>)\<close>

record scores =
  playerScore :: real
  aiScore :: real
  isScorePenaltyActive :: bool

text \<open>\<open>useState(0)\<close> for both scores, \<open>useState(false)\<close> for the penalty flag.\<close>

definition initial_scores :: scores where
  "initial_scores = \<lparr>playerScore = 0, aiScore = 0, isScorePenaltyActive = False\<rparr>"

text \<open>
  \<open>handleScoreUpdate(amt)\<close>: \<open>setPlayerScore(p => Math.max(0, p + amt))\<close>, and a negative
  amount raises the penalty flag (the 200 ms timer that lowers it again only touches that flag).
\<close>

definition handleScoreUpdate :: "real \<Rightarrow> scores \<Rightarrow> scores" where
  "handleScoreUpdate amt s =
     (let s1 = s\<lparr>playerScore := max 0 (playerScore s + amt)\<rparr>
      in if amt < 0 then s1\<lparr>isScorePenaltyActive := True\<rparr> else s1)"

text \<open>\<open>onAiScoreUpdate = (amt) => setAiScore(p => Math.max(0, p + amt))\<close>.\<close>

definition onAiScoreUpdate :: "real \<Rightarrow> scores \<Rightarrow> scores" where
  "onAiScoreUpdate amt s = s\<lparr>aiScore := max 0 (aiScore s + amt)\<rparr>"

text \<open>
  What changes the scores: a delta applied to the player or to the AI score, and the reset
  of \<open>resetGameState\<close> (\<open>setPlayerScore(0)\<close>, \<open>setAiScore(0)\<close>,
  \<open>setIsScorePenaltyActive(false)\<close>).
\<close>

datatype score_delta = PlayerDelta real | AiDelta real | ResetScores

fun apply_delta :: "scores \<Rightarrow> score_delta \<Rightarrow> scores" where
  "apply_delta s (PlayerDelta amt) = handleScoreUpdate amt s"
| "apply_delta s (AiDelta amt) = onAiScoreUpdate amt s"
| "apply_delta s ResetScores =
     s\<lparr>playerScore := 0, aiScore := 0, isScorePenaltyActive := False\<rparr>"

definition apply_deltas :: "scores \<Rightarrow> score_delta list \<Rightarrow> scores" where
  "apply_deltas s ds = foldl apply_delta s ds"

subsection \<open>Difficulty ramp (App: \<open>rampSpeed\<close>)\<close>

record ramp =
  scrollSpeed :: real
  noteSpeed :: real
  spawnInterval :: real

text \<open>The three setters of \<open>rampSpeed\<close>, as functions of \<open>elapsed = time - startTimestamp\<close>.\<close>

definition progression :: "real \<Rightarrow> real" where
  "progression elapsed = min (elapsed / 80000) 1"

definition ramp_at :: "real \<Rightarrow> ramp" where
  "ramp_at elapsed =
     \<lparr>scrollSpeed = min (elapsed / 7000) 1 * 10,
      noteSpeed = 35 + progression elapsed * 25,
      spawnInterval = 0.8 - progression elapsed * 0.3\<rparr>"

text \<open>
  \<open>rampSpeed(time)\<close>: \<open>startTimestamp\<close> is \<open>null\<close> at first; \<open>!startTimestamp\<close> is also
  true for the number 0. It returns the updated \<open>startTimestamp\<close> and the values set.
\<close>

definition rampSpeed :: "real option \<Rightarrow> real \<Rightarrow> real \<times> ramp" where
  "rampSpeed startTimestamp time =
     (let start = (case startTimestamp of
                     None \<Rightarrow> time
                   | Some t \<Rightarrow> if t = 0 then time else t)
      in (start, ramp_at (time - start)))"

subsection \<open>Position feedback (GameScene: \<open>useFrame\<close>)\<close>

text \<open>
  \<open>THREE.MathUtils.lerp\<close> of the three.js library (not part of this repository):
  \<open>lerp(x, y, t) = (1 - t) * x + t * y\<close>; the library does not clamp \<open>t\<close>.
\<close>

definition lerp :: "real \<Rightarrow> real \<Rightarrow> real \<Rightarrow> real" where
  "lerp x y t = (1 - t) * x + t * y"

definition maxScoreDiff :: real where "maxScoreDiff = 200"
definition maxZOffset :: real where "maxZOffset = 1.2"
definition carMoveSpeed :: real where "carMoveSpeed = 3"

record car_refs =
  playerZ :: real
  aiZ :: real

definition normalizedDiff :: "real \<Rightarrow> real \<Rightarrow> real" where
  "normalizedDiff pScore rScore = max (-1) (min 1 ((pScore - rScore) / maxScoreDiff))"

definition playerTargetZ :: "real \<Rightarrow> real \<Rightarrow> real" where
  "playerTargetZ pScore rScore = normalizedDiff pScore rScore * maxZOffset"

definition aiTargetZ :: "real \<Rightarrow> real \<Rightarrow> real" where
  "aiTargetZ pScore rScore = - normalizedDiff pScore rScore * maxZOffset"

definition gameScene_useFrame :: "real \<Rightarrow> real \<Rightarrow> real \<Rightarrow> car_refs \<Rightarrow> car_refs" where
  "gameScene_useFrame pScore rScore delta r =
     \<lparr>playerZ = lerp (playerZ r) (playerTargetZ pScore rScore) (delta * carMoveSpeed),
      aiZ = lerp (aiZ r) (aiTargetZ pScore rScore) (delta * carMoveSpeed)\<rparr>"

subsection \<open>Notes (NotesManager)\<close>

record Note =
  nid :: nat
  lane :: nat
  z :: real
  color :: string
  willAiHit :: bool
  aiProcessed :: bool

record config =
  interval :: real
  speed :: real
  spawnZ :: real

definition laneColors :: "string list" where
  "laneColors = [''#fffb00'', ''#ff003c'', ''#0072ff'', ''#00ff42'']"

definition HIT_WINDOW :: real where
  "HIT_WINDOW = 0.8"

text \<open>
  Reading and writing a JavaScript array of booleans by index: a read out of range gives
  \<open>undefined\<close>, which is falsy; a write out of range extends the array, the holes reading
  as \<open>undefined\<close>.
\<close>

definition js_index :: "bool list \<Rightarrow> nat \<Rightarrow> bool" where
  "js_index xs i = (if i < length xs then xs ! i else False)"

definition js_assign :: "bool list \<Rightarrow> nat \<Rightarrow> bool \<Rightarrow> bool list" where
  "js_assign xs i v =
     (if i < length xs then xs[i := v]
      else xs @ replicate (i - length xs) False @ [v])"

definition lane_color :: "nat \<Rightarrow> string" where
  "lane_color l = (if l < length laneColors then laneColors ! l else ''undefined'')"

text \<open>
  The calls a frame makes on its collaborators, in call order: \<open>onScoreUpdate\<close>,
  \<open>onAiScoreUpdate\<close>, \<open>playSound\<close> and \<open>spawnBurst(lane, color)\<close> (particles are cosmetic
  and are not modelled further).
\<close>

datatype sound = Hit | Miss

datatype event =
  ScoreUpdate real
| AiScoreUpdate real
| PlaySound sound
| SpawnBurst nat string

text \<open>
  The body of \<open>for (const note of prev)\<close> in the \<open>setNotes\<close> pass, for one note: the events
  fired, the \<open>keysUsedThisFrame\<close> array afterwards, and the note pushed to \<open>nextNotes\<close>, if any.
\<close>

definition step_note ::
  "real \<Rightarrow> config \<Rightarrow> real \<Rightarrow> bool list \<Rightarrow> bool list \<Rightarrow> Note
   \<Rightarrow> event list \<times> bool list \<times> Note option" where
  "step_note hitLineZ cfg delta pressedKeys keysUsed n =
     (let newZ = z n + speed cfg * delta;
          distanceToHitLine = \<bar>newZ - hitLineZ\<bar>;
          inHitZone = (distanceToHitLine < HIT_WINDOW);
          aiAdvance = (\<not> aiProcessed n \<and> willAiHit n \<and> newZ \<ge> hitLineZ);
          ev1 = (if aiAdvance then [AiScoreUpdate 10] else []);
          processed1 = (if aiAdvance then True else aiProcessed n);
          hit = (inHitZone \<and> js_index pressedKeys (lane n) \<and> \<not> js_index keysUsed (lane n));
          aiOnHit = (hit \<and> \<not> processed1 \<and> willAiHit n);
          ev2 = (if hit
                 then [ScoreUpdate 10, PlaySound Hit, SpawnBurst (lane n) (color n)]
                      @ (if aiOnHit then [AiScoreUpdate 10] else [])
                 else []);
          processed2 = (if aiOnHit then True else processed1);
          keysUsed2 = (if hit then js_assign keysUsed (lane n) True else keysUsed);
          keep1 = (\<not> hit);
          miss = (keep1 \<and> newZ > hitLineZ + HIT_WINDOW);
          ev3 = (if miss then [ScoreUpdate (-5), PlaySound Miss] else []);
          keep = (keep1 \<and> \<not> miss)
      in (ev1 @ ev2 @ ev3, keysUsed2,
          if keep then Some (n\<lparr>z := newZ, aiProcessed := processed2\<rparr>) else None))"

text \<open>The whole loop over \<open>prev\<close>, threading \<open>keysUsedThisFrame\<close> from note to note.\<close>

fun process_notes ::
  "real \<Rightarrow> config \<Rightarrow> real \<Rightarrow> bool list \<Rightarrow> bool list \<Rightarrow> Note list
   \<Rightarrow> event list \<times> bool list \<times> Note list" where
  "process_notes hitLineZ cfg delta pressedKeys keysUsed [] = ([], keysUsed, [])"
| "process_notes hitLineZ cfg delta pressedKeys keysUsed (n # ns) =
     (case step_note hitLineZ cfg delta pressedKeys keysUsed n of
        (ev, keysUsed1, kept) \<Rightarrow>
          (case process_notes hitLineZ cfg delta pressedKeys keysUsed1 ns of
             (evs, keysUsed2, nextNotes) \<Rightarrow>
               (ev @ evs, keysUsed2,
                (case kept of None \<Rightarrow> nextNotes | Some n' \<Rightarrow> n' # nextNotes))))"

text \<open>
  The results of the \<open>Math.random()\<close> calls of one spawn, named by their use:
  \<open>rDouble\<close> is compared with 0.20 (drawn only when \<open>timeLeft <= 79\<close>), \<open>rLane1\<close> gives the
  first (or only) lane, \<open>rLane2\<close> the offset of the second lane, \<open>rAi1\<close> and \<open>rAi2\<close> the
  \<open>willAiHit\<close> flags of the first and second new note.
\<close>

record draws =
  rDouble :: real
  rLane1 :: real
  rLane2 :: real
  rAi1 :: real
  rAi2 :: real

definition isDoubleSpawn :: "real \<Rightarrow> draws \<Rightarrow> bool" where
  "isDoubleSpawn timeLeft r =
     (let hasPassed40Seconds = (timeLeft \<le> 79)
      in hasPassed40Seconds \<and> rDouble r < 0.20)"

definition spawnLanes :: "real \<Rightarrow> draws \<Rightarrow> nat list" where
  "spawnLanes timeLeft r =
     (if isDoubleSpawn timeLeft r
      then (let lane1 = nat \<lfloor>rLane1 r * 4\<rfloor>;
                lane2 = (lane1 + 1 + nat \<lfloor>rLane2 r * 3\<rfloor>) mod 4
            in [lane1, lane2])
      else [nat \<lfloor>rLane1 r * 4\<rfloor>])"

text \<open>
  \<open>spawnLanes.map(lane => ({id: nextId.current++, ...}))\<close>: the k-th new note takes the id
  \<open>nextId + k\<close> and the k-th \<open>willAiHit\<close> draw.
\<close>

definition new_note :: "config \<Rightarrow> nat \<Rightarrow> nat \<Rightarrow> real \<Rightarrow> Note" where
  "new_note cfg i l rAi =
     \<lparr>nid = i, lane = l, z = spawnZ cfg, color = lane_color l,
      willAiHit = (rAi < 0.70), aiProcessed = False\<rparr>"

definition newNotesToSpawn :: "config \<Rightarrow> nat \<Rightarrow> real \<Rightarrow> draws \<Rightarrow> Note list" where
  "newNotesToSpawn cfg nextId0 timeLeft r =
     map (\<lambda>(k, l). new_note cfg (nextId0 + k) l (if k = 0 then rAi1 r else rAi2 r))
         (enumerate 0 (spawnLanes timeLeft r))"

record manager =
  m_notes :: "Note list"
  lastSpawnTime :: real
  nextId :: nat
  keysUsedThisFrame :: "bool list"

text \<open>\<open>useState([])\<close>, \<open>useRef(0)\<close>, \<open>useRef(0)\<close>, \<open>useRef([false, false, false, false])\<close>.\<close>

definition initial_manager :: manager where
  "initial_manager =
     \<lparr>m_notes = [], lastSpawnTime = 0, nextId = 0,
      keysUsedThisFrame = [False, False, False, False]\<rparr>"

text \<open>What one frame of the NotesManager reads: its props, the clock and the random draws.\<close>

record frame =
  f_isRacing :: bool
  f_timeLeft :: real
  f_hitLineZ :: real
  f_config :: config
  f_pressedKeys :: "bool list"
  f_currentTime :: real
  f_delta :: real
  f_rnd :: draws

definition canSpawn :: "real \<Rightarrow> bool" where
  "canSpawn timeLeft =
     (let isNearEnd = (timeLeft \<le> 3);
          isMidRacePause = (timeLeft \<le> 61 \<and> timeLeft > 58)
      in timeLeft > 0 \<and> \<not> isNearEnd \<and> \<not> isMidRacePause)"

text \<open>The notes a frame spawns: none unless the gate is open and the interval has passed.\<close>

definition spawned :: "frame \<Rightarrow> manager \<Rightarrow> Note list" where
  "spawned f m =
     (if canSpawn (f_timeLeft f) \<and> f_currentTime f - lastSpawnTime m > interval (f_config f)
      then newNotesToSpawn (f_config f) (nextId m) (f_timeLeft f) (f_rnd f)
      else [])"

definition spawn_stage :: "frame \<Rightarrow> manager \<Rightarrow> manager" where
  "spawn_stage f m =
     (if canSpawn (f_timeLeft f) \<and> f_currentTime f - lastSpawnTime m > interval (f_config f)
      then m\<lparr>m_notes := m_notes m @ spawned f m,
             nextId := nextId m + length (spawned f m),
             lastSpawnTime := f_currentTime f\<rparr>
      else m)"

text \<open>
  The \<open>useFrame\<close> callback of the NotesManager: nothing happens to the notes when
  \<open>isRacing\<close> is false (early return); otherwise the per-frame guard is reset, the spawn
  stage runs, and the movement and collision pass runs over all notes, the new ones included.
\<close>

definition notesManager_useFrame :: "frame \<Rightarrow> manager \<Rightarrow> manager \<times> event list" where
  "notesManager_useFrame f m =
     (if \<not> f_isRacing f then (m, [])
      else
        (let m1 = m\<lparr>keysUsedThisFrame := [False, False, False, False]\<rparr>;
             m2 = spawn_stage f m1
         in (case process_notes (f_hitLineZ f) (f_config f) (f_delta f) (f_pressedKeys f)
                    (keysUsedThisFrame m2) (m_notes m2) of
               (evs, keysUsed', nextNotes) \<Rightarrow>
                 (m2\<lparr>m_notes := nextNotes, keysUsedThisFrame := keysUsed'\<rparr>, evs))))"


text \<open>
  The life of one note: it goes through the loop body once per racing frame, with the
  \<open>keysUsedThisFrame\<close> array as the notes before it left it, until it is not kept.
  \<open>note_life\<close> collects the events fired for it, \<open>note_flags\<close> the successive values of its
  \<open>aiProcessed\<close> flag.
\<close>

record turn =
  t_hitLineZ :: real
  t_cfg :: config
  t_delta :: real
  t_pressedKeys :: "bool list"
  t_keysUsed :: "bool list"

definition step_turn :: "turn \<Rightarrow> Note \<Rightarrow> event list \<times> bool list \<times> Note option" where
  "step_turn t n =
     step_note (t_hitLineZ t) (t_cfg t) (t_delta t) (t_pressedKeys t) (t_keysUsed t) n"

fun note_life :: "Note \<Rightarrow> turn list \<Rightarrow> event list" where
  "note_life n [] = []"
| "note_life n (t # ts) =
     (case step_turn t n of
        (ev, _, None) \<Rightarrow> ev
      | (ev, _, Some n') \<Rightarrow> ev @ note_life n' ts)"

fun note_flags :: "Note \<Rightarrow> turn list \<Rightarrow> bool list" where
  "note_flags n [] = [aiProcessed n]"
| "note_flags n (t # ts) =
     (case step_turn t n of
        (_, _, None) \<Rightarrow> [aiProcessed n]
      | (_, _, Some n') \<Rightarrow> aiProcessed n # note_flags n' ts)"

text \<open>Counting in an event list and in a flag sequence.\<close>

fun is_ai_event :: "event \<Rightarrow> bool" where
  "is_ai_event (AiScoreUpdate _) = True"
| "is_ai_event _ = False"

definition ai_count :: "event list \<Rightarrow> nat" where
  "ai_count evs = length (filter is_ai_event evs)"

fun is_hit_in :: "nat \<Rightarrow> event \<Rightarrow> bool" where
  "is_hit_in l (SpawnBurst l' _) = (l' = l)"
| "is_hit_in l _ = False"

definition hits_in :: "nat \<Rightarrow> event list \<Rightarrow> nat" where
  "hits_in l evs = length (filter (is_hit_in l) evs)"

fun is_burst :: "event \<Rightarrow> bool" where
  "is_burst (SpawnBurst _ _) = True"
| "is_burst _ = False"

fun rises :: "bool list \<Rightarrow> nat" where
  "rises (a # b # bs) = (if \<not> a \<and> b then 1 else 0) + rises (b # bs)"
| "rises _ = 0"

fun falls :: "bool list \<Rightarrow> nat" where
  "falls (a # b # bs) = (if a \<and> \<not> b then 1 else 0) + falls (b # bs)"
| "falls _ = 0"

text \<open>
  The condition of the hit branch (\<open>inHitZone && pressedKeys[note.lane] &&
  !keysUsedThisFrame.current[note.lane]\<close>) and of the miss branch when the hit branch was
  not taken, as predicates on the inputs of the loop body.
\<close>

definition takes_hit :: "real \<Rightarrow> config \<Rightarrow> real \<Rightarrow> bool list \<Rightarrow> bool list \<Rightarrow> Note \<Rightarrow> bool" where
  "takes_hit hitLineZ cfg delta pressedKeys keysUsed n =
     (\<bar>z n + speed cfg * delta - hitLineZ\<bar> < HIT_WINDOW
      \<and> js_index pressedKeys (lane n) \<and> \<not> js_index keysUsed (lane n))"

definition passes_window :: "real \<Rightarrow> config \<Rightarrow> real \<Rightarrow> Note \<Rightarrow> bool" where
  "passes_window hitLineZ cfg delta n = (z n + speed cfg * delta > hitLineZ + HIT_WINDOW)"

text \<open>Ids of the active notes are pairwise distinct and below \<open>nextId\<close>.\<close>

definition note_ids :: "manager \<Rightarrow> nat list" where
  "note_ids m = map nid (m_notes m)"


text \<open>Further counts: notes the AI has still to score, player +10 events, bursts, AI amounts.\<close>

definition pending_ai :: "Note list \<Rightarrow> nat" where
  "pending_ai ns = length (filter (\<lambda>n. \<not> aiProcessed n \<and> willAiHit n) ns)"

definition plus_ten :: "event list \<Rightarrow> nat" where
  "plus_ten evs = length (filter (\<lambda>e. e = ScoreUpdate 10) evs)"

definition bursts :: "event list \<Rightarrow> nat" where
  "bursts evs = length (filter is_burst evs)"

fun ai_amounts :: "event list \<Rightarrow> real list" where
  "ai_amounts [] = []"
| "ai_amounts (AiScoreUpdate a # evs) = a # ai_amounts evs"
| "ai_amounts (_ # evs) = ai_amounts evs"

text \<open>Concrete inputs used to exercise the theorems.\<close>

definition ex_config :: config where
  "ex_config = \<lparr>interval = 0.8, speed = 35, spawnZ = -90\<rparr>"

definition ex_note :: Note where
  "ex_note = \<lparr>nid = 0, lane = 1, z = -10.5, color = ''#ff003c'',
               willAiHit = True, aiProcessed = False\<rparr>"

definition ex_turn :: turn where
  "ex_turn = \<lparr>t_hitLineZ = -10, t_cfg = ex_config, t_delta = 0.02,
               t_pressedKeys = [False, True, False, False],
               t_keysUsed = [False, False, False, False]\<rparr>"

definition ex_manager :: manager where
  "ex_manager =
     \<lparr>m_notes = [ex_note, ex_note\<lparr>nid := 1, z := -10.3\<rparr>], lastSpawnTime = 0, nextId = 2,
      keysUsedThisFrame = [False, False, False, False]\<rparr>"

definition ex_draws :: draws where
  "ex_draws = \<lparr>rDouble = 0.1, rLane1 = 0.9, rLane2 = 0.9, rAi1 = 0.5, rAi2 = 0.8\<rparr>"

definition ex_frame :: frame where
  "ex_frame =
     \<lparr>f_isRacing = True, f_timeLeft = 2, f_hitLineZ = -10, f_config = ex_config,
      f_pressedKeys = [False, True, False, False], f_currentTime = 100, f_delta = 0.02,
      f_rnd = ex_draws\<rparr>"


text \<open>The two lane expressions of the spawn, as functions of the draws.\<close>

definition lane1_of :: "draws \<Rightarrow> nat" where
  "lane1_of r = nat \<lfloor>rLane1 r * 4\<rfloor>"

definition lane2_of :: "draws \<Rightarrow> nat" where
  "lane2_of r = (lane1_of r + 1 + nat \<lfloor>rLane2 r * 3\<rfloor>) mod 4"

text \<open>
  A racing frame at \<open>timeLeft = 4\<close> that spawns two notes, and a later frame in which the
  race is over (\<open>isRacing\<close> false, \<open>timeLeft = 0\<close>).
\<close>

definition ex_spawn_frame :: frame where
  "ex_spawn_frame =
     \<lparr>f_isRacing = True, f_timeLeft = 4, f_hitLineZ = -10, f_config = ex_config,
      f_pressedKeys = [False, False, False, False], f_currentTime = 1, f_delta = 0.02,
      f_rnd = ex_draws\<rparr>"





subsection \<open>Race lifecycle and deferred callbacks (App)\<close>

text \<open>
  The scene and race state of \<open>App\<close>, with the browser's pending timers made explicit.
  Audio, commentary and the loading news are left out: no callback modelled here reads them.
  The \<open>timeLeft\<close> cell only ever holds whole seconds and is an \<open>int\<close>.
\<close>

datatype scene = MAIN | LOADING | RACE

datatype game_result = WIN | LOSE | DRAW

text \<open>
  The callbacks handed to \<open>setTimeout\<close>: \<open>LoadingDone\<close> is \<open>onFinished\<close> of the loading
  screen (2000 ms after everything is ready); \<open>StartSequence e\<close> is the outer callback of the
  countdown effect, created by the run number \<open>e\<close> of that effect (its closure holds that
  run's \<open>timers\<close> array); \<open>SetCountdownImg\<close> and \<open>StartRace\<close> are the four inner callbacks;
  \<open>FinishResult p r\<close> is the callback of \<open>handleFinishLinePassed\<close>, whose closure holds the
  scores \<open>p\<close> and \<open>r\<close>.
\<close>

datatype callback =
  LoadingDone
| StartSequence nat
| SetCountdownImg string
| StartRace
| FinishResult real real

text \<open>
  A pending timer. \<open>scheduled_gen\<close> is a ghost field, absent from the source: the value of
  \<open>raceId\<close> seen by the effect run or handler whose closure the callback belongs to.
\<close>

record timer =
  handle :: nat
  due :: nat
  callback_of :: callback
  scheduled_gen :: nat

record app =
  currentScene :: scene
  sc :: scores
  playerCarZ :: real
  aiCarZ :: real
  app_pressedKeys :: "bool list"
  isRacing :: bool
  countdownImg :: "string option"
  rmp :: ramp
  timeLeft :: int
  gameResult :: "game_result option"
  isGameFinished :: bool
  raceId :: nat
  now :: nat
  pending :: "timer list"
  nextHandle :: nat
  effectRun :: nat
  effectTimers :: "nat list"

text \<open>
  The state after mounting: the \<open>useState\<close> initial values, clock 0, no timer pending.
  \<open>effectRun\<close> counts the runs of the countdown effect; \<open>effectTimers\<close> is the \<open>timers\<close>
  array of the latest run, the one its cleanup will clear (arrays of earlier runs are out of
  reach of every cleanup).
\<close>

definition initial_app :: app where
  "initial_app =
     \<lparr>currentScene = MAIN, sc = initial_scores, playerCarZ = 0, aiCarZ = 0,
      app_pressedKeys = [False, False, False, False], isRacing = False, countdownImg = None,
      rmp = \<lparr>scrollSpeed = 0, noteSpeed = 35, spawnInterval = 0.8\<rparr>, timeLeft = 119,
      gameResult = None, isGameFinished = False, raceId = 0,
      now = 0, pending = [], nextHandle = 0, effectRun = 0, effectTimers = []\<rparr>"

text \<open>\<open>setTimeout(cb, delay)\<close> returns the new handle; \<open>clearTimeout(h)\<close>.\<close>

definition setTimeout :: "callback \<Rightarrow> nat \<Rightarrow> nat \<Rightarrow> app \<Rightarrow> app \<times> nat" where
  "setTimeout cb delay g a =
     (a\<lparr>pending := pending a @
                      [\<lparr>handle = nextHandle a, due = now a + delay, callback_of = cb,
                        scheduled_gen = g\<rparr>],
        nextHandle := nextHandle a + 1\<rparr>,
      nextHandle a)"

definition clearTimeout :: "nat \<Rightarrow> app \<Rightarrow> app" where
  "clearTimeout h a = a\<lparr>pending := filter (\<lambda>t. handle t \<noteq> h) (pending a)\<rparr>"

text \<open>\<open>resetGameState\<close> (the random commentary times, audio and commentary text left out).\<close>

definition resetGameState :: "app \<Rightarrow> app" where
  "resetGameState a =
     a\<lparr>sc := \<lparr>playerScore = 0, aiScore = 0, isScorePenaltyActive = False\<rparr>,
       playerCarZ := 0, aiCarZ := 0,
       app_pressedKeys := [False, False, False, False],
       isRacing := False, countdownImg := None,
       rmp := \<lparr>scrollSpeed = 0, noteSpeed = 35, spawnInterval = 0.8\<rparr>,
       timeLeft := 119, gameResult := None, isGameFinished := False,
       raceId := raceId a + 1\<rparr>"

text \<open>
  The countdown effect, \<open>useEffect(..., [currentScene, raceId])\<close>. React runs the cleanup of
  the previous run, \<open>timers.forEach(t => clearTimeout(t))\<close>, and then the body: nothing
  unless the scene is \<open>RACE\<close>; otherwise it resets the countdown image and \<open>isRacing\<close> and
  schedules \<open>startSequence\<close> in 3000 ms. The handle of \<open>startSequence\<close> is not pushed to
  \<open>timers\<close>.
\<close>

definition countdown_cleanup :: "app \<Rightarrow> app" where
  "countdown_cleanup a =
     a\<lparr>pending := filter (\<lambda>t. handle t \<notin> set (effectTimers a)) (pending a)\<rparr>"

definition countdown_effect :: "app \<Rightarrow> app" where
  "countdown_effect a =
     (let a1 = (countdown_cleanup a)\<lparr>effectRun := effectRun a + 1, effectTimers := []\<rparr>
      in if currentScene a1 \<noteq> RACE then a1
         else fst (setTimeout (StartSequence (effectRun a1)) 3000 (raceId a1)
                     (a1\<lparr>countdownImg := None, isRacing := False\<rparr>)))"

text \<open>
  The handlers. Each changes \<open>currentScene\<close> or \<open>raceId\<close>, so the countdown effect runs
  after it (the state updates of one handler are applied together, as React 18 batches them).
\<close>

definition handleStartRequest :: "app \<Rightarrow> app" where
  "handleStartRequest a = countdown_effect (a\<lparr>currentScene := LOADING\<rparr>)"

definition handleLoadingFinished :: "app \<Rightarrow> app" where
  "handleLoadingFinished a = countdown_effect (resetGameState (a\<lparr>currentScene := RACE\<rparr>))"

definition replay :: "app \<Rightarrow> app" where
  "replay a = countdown_effect (resetGameState a)"

definition handleExitToMain :: "app \<Rightarrow> app" where
  "handleExitToMain a = countdown_effect (a\<lparr>currentScene := MAIN\<rparr>)"

definition handleFinishLinePassed :: "app \<Rightarrow> app" where
  "handleFinishLinePassed a =
     fst (setTimeout (FinishResult (playerScore (sc a)) (aiScore (sc a))) 3000 (raceId a) a)"

text \<open>
  Running a callback; \<open>g\<close> is the ghost generation of the timer that fired. The inner
  timers of \<open>startSequence\<close> are pushed to the \<open>timers\<close> array of the effect run that
  created it, which is the array a cleanup will clear only while that run is the latest.
\<close>

fun run_callback :: "callback \<Rightarrow> nat \<Rightarrow> app \<Rightarrow> app" where
  "run_callback LoadingDone g a = handleLoadingFinished a"
| "run_callback (StartSequence e) g a =
     (case setTimeout (SetCountdownImg ''2.png'') 1000 g (a\<lparr>countdownImg := Some ''3.png''\<rparr>) of
        (a1, h1) \<Rightarrow>
     (case setTimeout (SetCountdownImg ''1.png'') 2000 g a1 of
        (a2, h2) \<Rightarrow>
     (case setTimeout (SetCountdownImg ''Go.png'') 3000 g a2 of
        (a3, h3) \<Rightarrow>
     (case setTimeout StartRace 4000 g a3 of
        (a4, h4) \<Rightarrow>
          (if e = effectRun a
           then a4\<lparr>effectTimers := effectTimers a @ [h1, h2, h3, h4]\<rparr>
           else a4)))))"
| "run_callback (SetCountdownImg img) g a = a\<lparr>countdownImg := Some img\<rparr>"
| "run_callback StartRace g a = a\<lparr>countdownImg := None, isRacing := True\<rparr>"
| "run_callback (FinishResult p r) g a =
     a\<lparr>isGameFinished := True, isRacing := False,
       rmp := (rmp a)\<lparr>scrollSpeed := 0\<rparr>,
       gameResult := Some (if p > r then WIN else if r > p then LOSE else DRAW)\<rparr>"

text \<open>
  What can happen to the app: a start request (with a non-blank name) on the main screen;
  the loading screen becoming ready, which schedules \<open>onFinished\<close>; the Replay button (shown
  with the result); the Exit and Menu buttons (race scene); the finish line reaching the hit
  line (the line is mounted while \<open>timeLeft === 0\<close> and the game is not finished); the
  one-second interval (while racing and \<open>timeLeft > 0\<close>); time passing; and a pending timer
  firing, never before it is due.
\<close>

fun is_loading_done :: "callback \<Rightarrow> bool" where
  "is_loading_done LoadingDone = True"
| "is_loading_done _ = False"

datatype input =
  StartRequest
| LoadingReady
| Replay
| ExitToMain
| FinishLinePassed
| SecondTick
| Wait nat
| Fire nat

fun step :: "app \<Rightarrow> input \<Rightarrow> app" where
  "step a StartRequest = (if currentScene a = MAIN then handleStartRequest a else a)"
| "step a LoadingReady =
     (if currentScene a = LOADING \<and> \<not> list_ex (\<lambda>t. is_loading_done (callback_of t)) (pending a)
      then fst (setTimeout LoadingDone 2000 (raceId a) a) else a)"
| "step a Replay =
     (if currentScene a = RACE \<and> gameResult a \<noteq> None then replay a else a)"
| "step a ExitToMain = (if currentScene a = RACE then handleExitToMain a else a)"
| "step a FinishLinePassed =
     (if currentScene a = RACE \<and> timeLeft a = 0 \<and> \<not> isGameFinished a
      then handleFinishLinePassed a else a)"
| "step a SecondTick =
     (if isRacing a \<and> timeLeft a > 0 then a\<lparr>timeLeft := timeLeft a - 1\<rparr> else a)"
| "step a (Wait ms) = a\<lparr>now := now a + ms\<rparr>"
| "step a (Fire h) =
     (case find (\<lambda>t. handle t = h) (pending a) of
        None \<Rightarrow> a
      | Some t \<Rightarrow>
          if due t \<le> now a
          then run_callback (callback_of t) (scheduled_gen t) (clearTimeout h a)
          else a)"

definition run :: "input list \<Rightarrow> app \<Rightarrow> app" where
  "run ins a = foldl step a ins"











text \<open>
  A trace in which the player leaves 500 ms after entering the race scene and starts again,
  loading ending before \<open>startSequence\<close> of the first entry is due.
\<close>

definition early_exit_trace :: "input list" where
  "early_exit_trace = [StartRequest, LoadingReady, Wait 2000, Fire 0, Wait 500, ExitToMain,
     StartRequest, LoadingReady, Wait 2000, Fire 2, Wait 500, Fire 1, Wait 4000, Fire 7]"

subsection \<open>The race scene: App and NotesManager together\<close>











section \<open>Properties\<close>

subsection \<open>Scores are clamped at zero\<close>

lemma apply_delta_nonneg:
  "0 \<le> playerScore s \<and> 0 \<le> aiScore s \<Longrightarrow>
   0 \<le> playerScore (apply_delta s d) \<and> 0 \<le> aiScore (apply_delta s d)"
  by (cases d) (simp_all add: handleScoreUpdate_def onAiScoreUpdate_def Let_def)

lemma foldl_apply_delta_nonneg:
  "0 \<le> playerScore s \<and> 0 \<le> aiScore s \<Longrightarrow>
   0 \<le> playerScore (foldl apply_delta s ds) \<and> 0 \<le> aiScore (foldl apply_delta s ds)"
proof (induction ds arbitrary: s)
  case Nil
  then show ?case by simp
next
  case (Cons d ds)
  have "0 \<le> playerScore (apply_delta s d) \<and> 0 \<le> aiScore (apply_delta s d)"
    using Cons.prems by (rule apply_delta_nonneg)
  then show ?case using Cons.IH by simp
qed

text \<open>
  C3. Every delta applied to the player score, and every delta applied to the AI score,
  gives \<open>max 0 (old + delta)\<close>; from the initial scores every sequence of deltas and
  resets leaves both scores non-negative; a miss penalty of -5 at score 0 leaves the score at 0.
\<close>

theorem C3_scores_clamped:
  "playerScore (handleScoreUpdate amt s) = max 0 (playerScore s + amt)
   \<and> aiScore (handleScoreUpdate amt s) = aiScore s
   \<and> aiScore (onAiScoreUpdate amt s) = max 0 (aiScore s + amt)
   \<and> playerScore (onAiScoreUpdate amt s) = playerScore s
   \<and> 0 \<le> playerScore (apply_deltas initial_scores ds)
   \<and> 0 \<le> aiScore (apply_deltas initial_scores ds)
   \<and> playerScore (handleScoreUpdate (-5) (s\<lparr>playerScore := 0\<rparr>)) = 0"
proof -
  have "0 \<le> playerScore initial_scores \<and> 0 \<le> aiScore initial_scores"
    by (simp add: initial_scores_def)
  then have "0 \<le> playerScore (foldl apply_delta initial_scores ds)
             \<and> 0 \<le> aiScore (foldl apply_delta initial_scores ds)"
    by (rule foldl_apply_delta_nonneg)
  then show ?thesis
    by (simp add: apply_deltas_def handleScoreUpdate_def onAiScoreUpdate_def Let_def)
qed

subsection \<open>The loop body and the pass over the notes\<close>

lemma js_index_assign_same: "js_index (js_assign xs i True) i"
  by (simp add: js_index_def js_assign_def nth_append)

lemma js_index_assign_mono: "js_index xs j \<Longrightarrow> js_index (js_assign xs i True) j"
  by (auto simp add: js_index_def js_assign_def nth_append nth_list_update split: if_splits)

lemma step_note_events:
  "fst (step_note h c d pk used n) =
     (if \<not> aiProcessed n \<and> willAiHit n \<and> h \<le> z n + speed c * d then [AiScoreUpdate 10] else [])
     @ (if takes_hit h c d pk used n
        then [ScoreUpdate 10, PlaySound Hit, SpawnBurst (lane n) (color n)]
             @ (if \<not> aiProcessed n \<and> willAiHit n \<and> \<not> h \<le> z n + speed c * d
                then [AiScoreUpdate 10] else [])
        else [])
     @ (if \<not> takes_hit h c d pk used n \<and> passes_window h c d n
        then [ScoreUpdate (-5), PlaySound Miss] else [])"
  by (auto simp add: step_note_def takes_hit_def passes_window_def Let_def)

lemma step_note_used:
  "fst (snd (step_note h c d pk used n)) =
     (if takes_hit h c d pk used n then js_assign used (lane n) True else used)"
  by (simp add: step_note_def takes_hit_def Let_def)

lemma step_note_kept:
  "snd (snd (step_note h c d pk used n)) =
     (if takes_hit h c d pk used n \<or> passes_window h c d n then None
      else Some (n\<lparr>z := z n + speed c * d,
                  aiProcessed := (aiProcessed n \<or> (willAiHit n \<and> h \<le> z n + speed c * d))\<rparr>))"
  by (auto simp add: step_note_def takes_hit_def passes_window_def Let_def)

lemma step_ai_count:
  "ai_count (fst (step_note h c d pk used n)) =
     (if \<not> aiProcessed n \<and> willAiHit n
         \<and> (h \<le> z n + speed c * d \<or> takes_hit h c d pk used n) then 1 else 0)"
  by (simp add: step_note_events ai_count_def)

lemma step_kept_flag:
  "snd (snd (step_note h c d pk used n)) = Some n' \<Longrightarrow>
   aiProcessed n' = (aiProcessed n \<or> (willAiHit n \<and> h \<le> z n + speed c * d))"
  by (auto simp add: step_note_kept split: if_splits)

lemma step_kept_no_hit:
  "snd (snd (step_note h c d pk used n)) = Some n' \<Longrightarrow> \<not> takes_hit h c d pk used n"
  by (auto simp add: step_note_kept split: if_splits)

lemma note_life_bound:
  "ai_count (note_life n ts) \<le> (if aiProcessed n then 0 else 1)"
proof (induction ts arbitrary: n)
  case Nil
  then show ?case by (simp add: ai_count_def)
next
  case (Cons t ts)
  obtain ev u k where st: "step_turn t n = (ev, u, k)"
    by (cases "step_turn t n") auto
  have ev: "ev = fst (step_note (t_hitLineZ t) (t_cfg t) (t_delta t) (t_pressedKeys t) (t_keysUsed t) n)"
    and k: "k = snd (snd (step_note (t_hitLineZ t) (t_cfg t) (t_delta t) (t_pressedKeys t) (t_keysUsed t) n))"
    using st by (simp_all add: step_turn_def)
  show ?case
  proof (cases k)
    case None
    then show ?thesis using st ev by (simp add: step_ai_count)
  next
    case (Some n')
    have fl: "aiProcessed n' = (aiProcessed n \<or> (willAiHit n \<and> t_hitLineZ t \<le> z n + speed (t_cfg t) * t_delta t))"
      using Some k step_kept_flag by metis
    have nh: "\<not> takes_hit (t_hitLineZ t) (t_cfg t) (t_delta t) (t_pressedKeys t) (t_keysUsed t) n"
      using Some k step_kept_no_hit by metis
    have "ai_count (note_life n (t # ts)) = ai_count ev + ai_count (note_life n' ts)"
      using st Some by (simp add: ai_count_def)
    moreover have "ai_count (note_life n' ts) \<le> (if aiProcessed n' then 0 else 1)"
      by (rule Cons.IH)
    moreover have "ai_count ev = (if \<not> aiProcessed n \<and> willAiHit n \<and> t_hitLineZ t \<le> z n + speed (t_cfg t) * t_delta t then 1 else 0)"
      using nh by (simp add: ev step_ai_count)
    ultimately show ?thesis using fl by (auto split: if_splits)
  qed
qed

lemma note_flags_hd: "hd (note_flags n ts) = aiProcessed n \<and> note_flags n ts \<noteq> []"
  by (cases ts) (auto split: prod.splits option.splits)

lemma rises_Cons: "xs \<noteq> [] \<Longrightarrow> rises (a # xs) = (if \<not> a \<and> hd xs then 1 else 0) + rises xs"
  by (cases xs) auto

lemma falls_Cons: "xs \<noteq> [] \<Longrightarrow> falls (a # xs) = (if a \<and> \<not> hd xs then 1 else 0) + falls xs"
  by (cases xs) auto

lemma note_flags_mono:
  "falls (note_flags n ts) = 0 \<and> rises (note_flags n ts) \<le> (if aiProcessed n then 0 else 1)"
proof (induction ts arbitrary: n)
  case Nil
  then show ?case by simp
next
  case (Cons t ts)
  obtain ev u k where st: "step_turn t n = (ev, u, k)"
    by (cases "step_turn t n") auto
  have k: "k = snd (snd (step_note (t_hitLineZ t) (t_cfg t) (t_delta t) (t_pressedKeys t) (t_keysUsed t) n))"
    using st by (simp add: step_turn_def)
  show ?case
  proof (cases k)
    case None
    then show ?thesis using st by simp
  next
    case (Some n')
    have fl: "aiProcessed n \<Longrightarrow> aiProcessed n'"
      using Some k step_kept_flag by metis
    have eq: "note_flags n (t # ts) = aiProcessed n # note_flags n' ts"
      using st Some by simp
    have hd': "hd (note_flags n' ts) = aiProcessed n'" and ne: "note_flags n' ts \<noteq> []"
      using note_flags_hd by auto
    have ih: "falls (note_flags n' ts) = 0 \<and> rises (note_flags n' ts) \<le> (if aiProcessed n' then 0 else 1)"
      by (rule Cons.IH)
    show ?thesis
      unfolding eq rises_Cons [OF ne] falls_Cons [OF ne] hd'
      using ih fl by (auto split: if_splits)
  qed
qed

lemma process_notes_Cons:
  "process_notes h c d pk used (n # ns) =
     (fst (step_note h c d pk used n)
        @ fst (process_notes h c d pk (fst (snd (step_note h c d pk used n))) ns),
      fst (snd (process_notes h c d pk (fst (snd (step_note h c d pk used n))) ns)),
      (case snd (snd (step_note h c d pk used n)) of
         None \<Rightarrow> snd (snd (process_notes h c d pk (fst (snd (step_note h c d pk used n))) ns))
       | Some n' \<Rightarrow> n' # snd (snd (process_notes h c d pk (fst (snd (step_note h c d pk used n))) ns))))"
  by (simp add: split_beta)

lemma ai_count_append: "ai_count (xs @ ys) = ai_count xs + ai_count ys"
  by (simp add: ai_count_def)

lemma hits_in_append: "hits_in l (xs @ ys) = hits_in l xs + hits_in l ys"
  by (simp add: hits_in_def)

lemma process_notes_pending:
  "ai_count (fst (process_notes h c d pk used ns))
     + pending_ai (snd (snd (process_notes h c d pk used ns))) \<le> pending_ai ns"
proof (induction ns arbitrary: used)
  case Nil
  then show ?case by (simp add: ai_count_def pending_ai_def)
next
  case (Cons n ns)
  let ?u = "fst (snd (step_note h c d pk used n))"
  have ih: "ai_count (fst (process_notes h c d pk ?u ns))
     + pending_ai (snd (snd (process_notes h c d pk ?u ns))) \<le> pending_ai ns"
    by (rule Cons.IH)
  have st: "ai_count (fst (step_note h c d pk used n))
       + pending_ai (case snd (snd (step_note h c d pk used n)) of None \<Rightarrow> [] | Some n' \<Rightarrow> [n'])
       \<le> pending_ai [n]"
    by (auto simp add: step_ai_count step_note_kept pending_ai_def)
  have split_kept: "pending_ai (case snd (snd (step_note h c d pk used n)) of
         None \<Rightarrow> snd (snd (process_notes h c d pk ?u ns))
       | Some n' \<Rightarrow> n' # snd (snd (process_notes h c d pk ?u ns)))
     = pending_ai (case snd (snd (step_note h c d pk used n)) of None \<Rightarrow> [] | Some n' \<Rightarrow> [n'])
       + pending_ai (snd (snd (process_notes h c d pk ?u ns)))"
    by (simp add: pending_ai_def split: option.splits)
  have pn: "pending_ai (n # ns) = pending_ai [n] + pending_ai ns"
    by (simp add: pending_ai_def)
  show ?case
    unfolding process_notes_Cons fst_conv snd_conv ai_count_append split_kept pn
    using ih st by linarith
qed

lemma step_hits_in:
  "hits_in l (fst (step_note h c d pk used n)) =
     (if takes_hit h c d pk used n \<and> lane n = l then 1 else 0)"
  by (simp add: step_note_events hits_in_def)

lemma takes_hit_unused: "takes_hit h c d pk used n \<Longrightarrow> \<not> js_index used (lane n)"
  by (simp add: takes_hit_def)

lemma step_used_keeps: "js_index used l \<Longrightarrow> js_index (fst (snd (step_note h c d pk used n))) l"
  by (simp add: step_note_used js_index_assign_mono)

lemma process_notes_used_lane:
  "js_index used l \<Longrightarrow> hits_in l (fst (process_notes h c d pk used ns)) = 0"
proof (induction ns arbitrary: used)
  case Nil
  then show ?case by (simp add: hits_in_def)
next
  case (Cons n ns)
  have here: "hits_in l (fst (step_note h c d pk used n)) = 0"
    using Cons.prems takes_hit_unused by (auto simp add: step_hits_in)
  have "js_index (fst (snd (step_note h c d pk used n))) l"
    using Cons.prems by (rule step_used_keeps)
  then have "hits_in l (fst (process_notes h c d pk (fst (snd (step_note h c d pk used n))) ns)) = 0"
    by (rule Cons.IH)
  then show ?case
    unfolding process_notes_Cons fst_conv hits_in_append using here by simp
qed

lemma process_notes_one_hit:
  "hits_in l (fst (process_notes h c d pk used ns)) \<le> 1"
proof (induction ns arbitrary: used)
  case Nil
  then show ?case by (simp add: hits_in_def)
next
  case (Cons n ns)
  let ?u = "fst (snd (step_note h c d pk used n))"
  show ?case
  proof (cases "takes_hit h c d pk used n \<and> lane n = l")
    case True
    then have "js_index ?u l"
      by (simp add: step_note_used js_index_assign_same)
    then have "hits_in l (fst (process_notes h c d pk ?u ns)) = 0"
      by (rule process_notes_used_lane)
    then show ?thesis
      unfolding process_notes_Cons fst_conv hits_in_append by (simp add: step_hits_in)
  next
    case False
    then have "hits_in l (fst (step_note h c d pk used n)) = 0"
      by (simp add: step_hits_in)
    moreover have "hits_in l (fst (process_notes h c d pk ?u ns)) \<le> 1"
      by (rule Cons.IH)
    ultimately show ?thesis
      unfolding process_notes_Cons fst_conv hits_in_append by simp
  qed
qed

lemma step_plus_ten_bursts:
  "plus_ten (fst (step_note h c d pk used n)) = bursts (fst (step_note h c d pk used n))"
  by (simp add: step_note_events plus_ten_def bursts_def)

lemma process_plus_ten_bursts:
  "plus_ten (fst (process_notes h c d pk used ns)) = bursts (fst (process_notes h c d pk used ns))"
proof (induction ns arbitrary: used)
  case Nil
  then show ?case by (simp add: plus_ten_def bursts_def)
next
  case (Cons n ns)
  have app: "\<And>xs ys. plus_ten (xs @ ys) = plus_ten xs + plus_ten ys"
    "\<And>xs ys. bursts (xs @ ys) = bursts xs + bursts ys"
    by (simp_all add: plus_ten_def bursts_def)
  show ?case
    unfolding process_notes_Cons fst_conv app
    by (simp add: step_plus_ten_bursts Cons.IH)
qed

lemma useFrame_events:
  "snd (notesManager_useFrame f m) =
     (if \<not> f_isRacing f then []
      else fst (process_notes (f_hitLineZ f) (f_config f) (f_delta f) (f_pressedKeys f)
                  [False, False, False, False]
                  (m_notes (spawn_stage f (m\<lparr>keysUsedThisFrame := [False, False, False, False]\<rparr>)))))"
  by (simp add: notesManager_useFrame_def Let_def split_beta spawn_stage_def)


lemma ai_amounts_append: "ai_amounts (xs @ ys) = ai_amounts xs @ ai_amounts ys"
  by (induction xs rule: ai_amounts.induct) simp_all

lemma step_ai_amounts:
  "ai_amounts (fst (step_note h c d pk used n)) =
     replicate (ai_count (fst (step_note h c d pk used n))) 10"
  by (simp add: step_note_events ai_count_def)

lemma note_life_amounts:
  "ai_amounts (note_life n ts) = replicate (ai_count (note_life n ts)) 10"
proof (induction ts arbitrary: n)
  case Nil
  then show ?case by (simp add: ai_count_def)
next
  case (Cons t ts)
  obtain ev u k where st: "step_turn t n = (ev, u, k)"
    by (cases "step_turn t n") auto
  have ev: "ai_amounts ev = replicate (ai_count ev) 10"
    using st step_ai_amounts [of "t_hitLineZ t" "t_cfg t" "t_delta t" "t_pressedKeys t" "t_keysUsed t" n]
    by (simp add: step_turn_def)
  show ?case
  proof (cases k)
    case None
    then show ?thesis using st ev by simp
  next
    case (Some n')
    have "note_life n (t # ts) = ev @ note_life n' ts"
      using st Some by simp
    then show ?thesis
      using ev Cons.IH [of n'] by (simp add: ai_amounts_append ai_count_append replicate_add)
  qed
qed

text \<open>
  C1. Over the life of a note the AI score delta is fired at most once, and never for a note
  whose \<open>aiProcessed\<close> flag is already set; every AI delta fired is +10; the flag of the
  successive copies of the note rises from false to true at most once and never falls. In one
  pass of the loop body the AI delta is fired exactly when the flag is not set, \<open>willAiHit\<close>
  holds and either the new position has reached the hit line (advance branch) or the hit
  branch is taken (which re-checks the flag), hence once even when both branches run. In one
  frame, the AI deltas fired plus the kept notes still to be scored never exceed the notes
  that were still to be scored.
\<close>

theorem C1_ai_scores_once:
  "ai_count (note_life n ts) \<le> (if aiProcessed n then 0 else 1)
   \<and> ai_amounts (note_life n ts) = replicate (ai_count (note_life n ts)) 10
   \<and> rises (note_flags n ts) \<le> (if aiProcessed n then 0 else 1)
   \<and> falls (note_flags n ts) = 0
   \<and> ai_count (fst (step_note h c d pk used n)) =
       (if \<not> aiProcessed n \<and> willAiHit n
           \<and> (h \<le> z n + speed c * d \<or> takes_hit h c d pk used n) then 1 else 0)
   \<and> ai_count (fst (process_notes h c d pk used ns))
       + pending_ai (snd (snd (process_notes h c d pk used ns))) \<le> pending_ai ns"
  using note_life_bound [of n ts] note_life_amounts [of n ts] note_flags_mono [of n ts]
    step_ai_count [of h c d pk used n] process_notes_pending [of h c d pk used ns]
  by blast

lemma ex_turn_both_branches:
  "step_turn ex_turn ex_note =
     ([AiScoreUpdate 10, ScoreUpdate 10, PlaySound Hit, SpawnBurst 1 ''#ff003c''],
      [False, True, False, False], None)"
  by (simp add: step_turn_def step_note_def ex_turn_def ex_note_def ex_config_def
      HIT_WINDOW_def js_index_def js_assign_def Let_def)

theorem C1_ai_scores_once_witness:
  "t_hitLineZ ex_turn \<le> z ex_note + speed (t_cfg ex_turn) * t_delta ex_turn
   \<and> takes_hit (t_hitLineZ ex_turn) (t_cfg ex_turn) (t_delta ex_turn) (t_pressedKeys ex_turn)
        (t_keysUsed ex_turn) ex_note
   \<and> note_life ex_note [ex_turn]
       = [AiScoreUpdate 10, ScoreUpdate 10, PlaySound Hit, SpawnBurst 1 ''#ff003c'']
   \<and> ai_count (note_life ex_note [ex_turn]) = 1
   \<and> ai_amounts (note_life ex_note [ex_turn]) = [10]
   \<and> rises (note_flags ex_note [ex_turn]) = 0"
  using C1_ai_scores_once [of ex_note "[ex_turn]" "t_hitLineZ ex_turn" "t_cfg ex_turn"
      "t_delta ex_turn" "t_pressedKeys ex_turn" "t_keysUsed ex_turn" "[]"]
  by (simp add: ex_turn_both_branches ai_count_def)
     (simp add: takes_hit_def ex_turn_def ex_note_def ex_config_def HIT_WINDOW_def js_index_def)

text \<open>
  C2. In every frame and for every lane, at most one note is resolved as a player hit in
  that lane (each hit calls \<open>spawnBurst\<close> with the note's lane), whatever notes are inside
  the hit window; the +10 player deltas of the frame are exactly its hits.
\<close>

theorem C2_one_hit_per_lane: "hits_in l (snd (notesManager_useFrame f m)) \<le> 1
  \<and> plus_ten (snd (notesManager_useFrame f m)) = bursts (snd (notesManager_useFrame f m))"
proof (cases "f_isRacing f")
  case True
  then show ?thesis
    unfolding useFrame_events
    using process_notes_one_hit process_plus_ten_bursts by simp
next
  case False
  then show ?thesis
    unfolding useFrame_events by (simp add: hits_in_def plus_ten_def bursts_def)
qed

theorem C2_one_hit_per_lane_witness:
  "hits_in 1 (snd (notesManager_useFrame ex_frame ex_manager)) = 1
   \<and> plus_ten (snd (notesManager_useFrame ex_frame ex_manager)) = 1
   \<and> map nid (m_notes (fst (notesManager_useFrame ex_frame ex_manager))) = [1]"
  using C2_one_hit_per_lane [of 1 ex_frame ex_manager]
  by (simp add: notesManager_useFrame_def spawn_stage_def canSpawn_def ex_frame_def
      ex_manager_def ex_note_def ex_config_def step_note_def HIT_WINDOW_def js_index_def
      js_assign_def Let_def hits_in_def plus_ten_def bursts_def)

subsection \<open>Difficulty ramp\<close>

lemma progression_mono: "e \<le> e' \<Longrightarrow> progression e \<le> progression e'"
  by (simp add: progression_def min_def divide_right_mono)

lemma progression_range: "0 \<le> e \<Longrightarrow> 0 \<le> progression e \<and> progression e \<le> 1"
  by (simp add: progression_def)

lemma progression_cap: "(progression e = 1) = (80000 \<le> e)"
  by (auto simp add: progression_def min_def)

text \<open>
  C9. With \<open>elapsed\<close> the time since the first ramp frame (never negative),
  \<open>noteSpeed = 35 + min(elapsed/80000, 1) * 25\<close> is non-decreasing and within [35, 60],
  \<open>spawnInterval = 0.8 - min(elapsed/80000, 1) * 0.3\<close> is non-increasing and within
  [0.5, 0.8], and each is at its cap (60, 0.5) exactly when \<open>elapsed \<ge> 80000\<close>.
\<close>

theorem C9_ramp_monotone_bounded:
  assumes "0 \<le> e" and "e \<le> e'"
  shows "noteSpeed (ramp_at e) = 35 + min (e / 80000) 1 * 25
         \<and> spawnInterval (ramp_at e) = 0.8 - min (e / 80000) 1 * 0.3
         \<and> noteSpeed (ramp_at e) \<le> noteSpeed (ramp_at e')
         \<and> spawnInterval (ramp_at e') \<le> spawnInterval (ramp_at e)
         \<and> 35 \<le> noteSpeed (ramp_at e) \<and> noteSpeed (ramp_at e) \<le> 60
         \<and> 0.5 \<le> spawnInterval (ramp_at e) \<and> spawnInterval (ramp_at e) \<le> 0.8
         \<and> (noteSpeed (ramp_at e) = 60) = (80000 \<le> e)
         \<and> (spawnInterval (ramp_at e) = 0.5) = (80000 \<le> e)
         \<and> snd (rampSpeed (Some t0) (t0 + e)) = ramp_at (if t0 = 0 then 0 else e)"
proof -
  have m: "progression e \<le> progression e'"
    using assms(2) by (rule progression_mono)
  have r: "0 \<le> progression e" "progression e \<le> 1"
    using assms(1) progression_range by auto
  have c: "(progression e = 1) = (80000 \<le> e)"
    by (rule progression_cap)
  have ns: "noteSpeed (ramp_at e) = 35 + progression e * 25"
    "noteSpeed (ramp_at e') = 35 + progression e' * 25"
    "spawnInterval (ramp_at e) = 0.8 - progression e * 0.3"
    "spawnInterval (ramp_at e') = 0.8 - progression e' * 0.3"
    by (simp_all add: ramp_at_def)
  have rs: "snd (rampSpeed (Some t0) (t0 + e)) = ramp_at (if t0 = 0 then 0 else e)"
    by (simp add: rampSpeed_def)
  have cap1: "(noteSpeed (ramp_at e) = 60) = (80000 \<le> e)"
    unfolding ns c [symmetric] by auto
  have cap2: "(spawnInterval (ramp_at e) = 0.5) = (80000 \<le> e)"
    unfolding ns c [symmetric] by auto
  have def1: "noteSpeed (ramp_at e) = 35 + min (e / 80000) 1 * 25"
    "spawnInterval (ramp_at e) = 0.8 - min (e / 80000) 1 * 0.3"
    by (simp_all add: ramp_at_def progression_def)
  have b: "noteSpeed (ramp_at e) \<le> noteSpeed (ramp_at e')"
    "spawnInterval (ramp_at e') \<le> spawnInterval (ramp_at e)"
    "35 \<le> noteSpeed (ramp_at e)" "noteSpeed (ramp_at e) \<le> 60"
    "0.5 \<le> spawnInterval (ramp_at e)" "spawnInterval (ramp_at e) \<le> 0.8"
    unfolding ns using m r by simp_all
  show ?thesis using def1 b cap1 cap2 rs by blast
qed

theorem C9_ramp_monotone_bounded_witness:
  "(0::real) \<le> 40000 \<and> (40000::real) \<le> 90000
   \<and> noteSpeed (ramp_at 40000) = 47.5 \<and> noteSpeed (ramp_at 90000) = 60
   \<and> spawnInterval (ramp_at 40000) = 0.65 \<and> spawnInterval (ramp_at 90000) = 0.5
   \<and> noteSpeed (ramp_at 40000) \<le> noteSpeed (ramp_at 90000)
   \<and> spawnInterval (ramp_at 90000) \<le> spawnInterval (ramp_at 40000)"
proof -
  have h: "(0::real) \<le> 40000" "(40000::real) \<le> 90000" by simp_all
  show ?thesis
    using h C9_ramp_monotone_bounded [OF h, of 1]
    by (simp add: ramp_at_def progression_def)
qed

subsection \<open>Position feedback\<close>

lemma lerp_step: "lerp x y t = x + (y - x) * t"
  by (simp add: lerp_def algebra_simps)

lemma lerp_between:
  assumes "0 \<le> t" and "t \<le> 1"
  shows "min x y \<le> lerp x y t \<and> lerp x y t \<le> max x y"
proof (cases "x \<le> y")
  case True
  have lo: "0 \<le> (y - x) * t" using True assms(1) by simp
  have "(y - x) * t \<le> (y - x) * 1"
    using True assms(2) by (intro mult_left_mono) simp_all
  then have hi: "(y - x) * t \<le> y - x" by simp
  have "x \<le> lerp x y t" "lerp x y t \<le> y"
    unfolding lerp_step using lo hi by linarith+
  then show ?thesis using True by simp
next
  case False
  then have neg: "y - x \<le> 0" by simp
  have hi: "(y - x) * t \<le> 0" using neg assms(1) by (simp add: mult_nonpos_nonneg)
  have "(y - x) * 1 \<le> (y - x) * t"
    using neg assms(2) by (intro mult_left_mono_neg) simp_all
  then have lo: "y - x \<le> (y - x) * t" by simp
  have "y \<le> lerp x y t" "lerp x y t \<le> x"
    unfolding lerp_step using lo hi by linarith+
  then show ?thesis using False by simp
qed

text \<open>
  C6, as the code has it. The targets are \<open>clamp((playerScore - aiScore)/200, -1, 1) * 1.2\<close>
  and its negation. Each frame moves each offset by \<open>(target - current) * (delta * 3)\<close>:
  the step factor is \<open>delta * 3\<close>, not clamped. The new offset lies between the old one and
  the target whenever \<open>0 \<le> delta\<close> and \<open>delta * 3 \<le> 1\<close>.
\<close>

theorem C6_offsets_lerp_unclamped:
  "playerTargetZ p a = max (-1) (min 1 ((p - a) / 200)) * 1.2
   \<and> aiTargetZ p a = - playerTargetZ p a
   \<and> playerZ (gameScene_useFrame p a d r)
       = playerZ r + (playerTargetZ p a - playerZ r) * (d * 3)
   \<and> aiZ (gameScene_useFrame p a d r) = aiZ r + (aiTargetZ p a - aiZ r) * (d * 3)
   \<and> (0 \<le> d \<and> d * 3 \<le> 1 \<longrightarrow>
        min (playerZ r) (playerTargetZ p a) \<le> playerZ (gameScene_useFrame p a d r)
        \<and> playerZ (gameScene_useFrame p a d r) \<le> max (playerZ r) (playerTargetZ p a)
        \<and> min (aiZ r) (aiTargetZ p a) \<le> aiZ (gameScene_useFrame p a d r)
        \<and> aiZ (gameScene_useFrame p a d r) \<le> max (aiZ r) (aiTargetZ p a))"
proof -
  have t: "playerTargetZ p a = max (-1) (min 1 ((p - a) / 200)) * 1.2"
    "aiTargetZ p a = - playerTargetZ p a"
    by (simp_all add: playerTargetZ_def aiTargetZ_def normalizedDiff_def maxScoreDiff_def
        maxZOffset_def)
  have s: "playerZ (gameScene_useFrame p a d r) = lerp (playerZ r) (playerTargetZ p a) (d * 3)"
    "aiZ (gameScene_useFrame p a d r) = lerp (aiZ r) (aiTargetZ p a) (d * 3)"
    by (simp_all add: gameScene_useFrame_def carMoveSpeed_def)
  have b: "min (playerZ r) (playerTargetZ p a) \<le> playerZ (gameScene_useFrame p a d r)
        \<and> playerZ (gameScene_useFrame p a d r) \<le> max (playerZ r) (playerTargetZ p a)
        \<and> min (aiZ r) (aiTargetZ p a) \<le> aiZ (gameScene_useFrame p a d r)
        \<and> aiZ (gameScene_useFrame p a d r) \<le> max (aiZ r) (aiTargetZ p a)"
    if "0 \<le> d" "d * 3 \<le> 1"
  proof -
    have "0 \<le> d * 3" using that(1) by simp
    then show ?thesis
      unfolding s using lerp_between that(2) by blast
  qed
  show ?thesis using t s b lerp_step by metis
qed

theorem C6_offsets_lerp_unclamped_witness:
  "(0::real) \<le> 0.1 \<and> (0.1::real) * 3 \<le> 1
   \<and> playerTargetZ 200 0 = 1.2
   \<and> playerZ (gameScene_useFrame 200 0 0.1 \<lparr>playerZ = 0, aiZ = 0\<rparr>) = 0.36
   \<and> aiZ (gameScene_useFrame 200 0 0.1 \<lparr>playerZ = 0, aiZ = 0\<rparr>) = - 0.36
   \<and> playerZ (gameScene_useFrame 200 0 0.1 \<lparr>playerZ = 0, aiZ = 0\<rparr>) \<le> playerTargetZ 200 0"
  using C6_offsets_lerp_unclamped [of 200 0 "0.1" "\<lparr>playerZ = 0, aiZ = 0\<rparr>"]
  by simp

text \<open>
  C6 as stated fails: with a frame of one second (\<open>delta = 1\<close>), scores 200 and 0 and the
  player offset at 0, the target is 1.2 and the claimed update
  \<open>current + (target - current) * min(1, delta * 3)\<close> would give 1.2; the code gives 3.6,
  past the target.
\<close>

theorem C6_clamped_step_counterexample:
  "playerZ (gameScene_useFrame 200 0 1 \<lparr>playerZ = 0, aiZ = 0\<rparr>)
     \<noteq> playerZ \<lparr>playerZ = 0, aiZ = 0\<rparr>
         + (playerTargetZ 200 0 - playerZ \<lparr>playerZ = 0, aiZ = 0\<rparr>) * min 1 (1 * 3)
   \<and> playerZ \<lparr>playerZ = 0, aiZ = 0\<rparr> < playerTargetZ 200 0
   \<and> playerTargetZ 200 0 < playerZ (gameScene_useFrame 200 0 1 \<lparr>playerZ = 0, aiZ = 0\<rparr>)
   \<and> playerZ (gameScene_useFrame 200 0 1 \<lparr>playerZ = 0, aiZ = 0\<rparr>) = 3.6"
  by (simp add: gameScene_useFrame_def lerp_def playerTargetZ_def normalizedDiff_def
      maxScoreDiff_def maxZOffset_def carMoveSpeed_def)

subsection \<open>Spawning\<close>

lemma lane1_range: "0 \<le> rLane1 r \<Longrightarrow> rLane1 r < 1 \<Longrightarrow> lane1_of r < 4"
proof -
  assume a: "0 \<le> rLane1 r" "rLane1 r < 1"
  have "\<lfloor>rLane1 r * 4\<rfloor> < 4" using a(2) by (simp add: floor_less_iff)
  moreover have "0 \<le> \<lfloor>rLane1 r * 4\<rfloor>" using a(1) by simp
  ultimately show ?thesis unfolding lane1_of_def by linarith
qed

lemma offset_range: "0 \<le> rLane2 r \<Longrightarrow> rLane2 r < 1 \<Longrightarrow> nat \<lfloor>rLane2 r * 3\<rfloor> \<le> 2"
proof -
  assume a: "0 \<le> rLane2 r" "rLane2 r < 1"
  have "\<lfloor>rLane2 r * 3\<rfloor> < 3" using a(2) by (simp add: floor_less_iff)
  then show ?thesis by linarith
qed

lemma lane2_distinct:
  "l < 4 \<Longrightarrow> k \<le> 2 \<Longrightarrow> (l + 1 + k) mod 4 \<noteq> (l::nat) \<and> (l + 1 + k) mod 4 < 4"
  by presburger

lemma lane1_uniform:
  "0 \<le> rLane1 r \<Longrightarrow> (lane1_of r = k) = (real k / 4 \<le> rLane1 r \<and> rLane1 r < (real k + 1) / 4)"
proof -
  assume a: "0 \<le> rLane1 r"
  have nn: "0 \<le> \<lfloor>rLane1 r * 4\<rfloor>" using a by simp
  have "(lane1_of r = k) = (\<lfloor>rLane1 r * 4\<rfloor> = int k)"
    using nn by (auto simp add: lane1_of_def)
  also have "\<dots> = (real k \<le> rLane1 r * 4 \<and> rLane1 r * 4 < real k + 1)"
    by (simp add: floor_eq_iff)
  also have "\<dots> = (real k / 4 \<le> rLane1 r \<and> rLane1 r < (real k + 1) / 4)"
    by (simp add: field_simps)
  finally show ?thesis .
qed

lemma spawnLanes_eq:
  "spawnLanes tleft r = (if isDoubleSpawn tleft r then [lane1_of r, lane2_of r] else [lane1_of r])"
  by (simp add: spawnLanes_def lane1_of_def lane2_of_def Let_def)

lemma newNotes_double:
  "isDoubleSpawn tleft r \<Longrightarrow>
   newNotesToSpawn c i tleft r =
     [new_note c i (lane1_of r) (rAi1 r), new_note c (i + 1) (lane2_of r) (rAi2 r)]"
  by (simp add: newNotesToSpawn_def spawnLanes_eq)

lemma newNotes_single:
  "\<not> isDoubleSpawn tleft r \<Longrightarrow> newNotesToSpawn c i tleft r = [new_note c i (lane1_of r) (rAi1 r)]"
  by (simp add: newNotesToSpawn_def spawnLanes_eq)

lemma newNotes_ids:
  "map nid (newNotesToSpawn c i tleft r) = [i ..< i + length (newNotesToSpawn c i tleft r)]"
  by (cases "isDoubleSpawn tleft r")
     (simp_all add: newNotes_double newNotes_single new_note_def upt_rec)

lemma newNotes_nonempty: "newNotesToSpawn c i tleft r \<noteq> []"
  by (cases "isDoubleSpawn tleft r") (simp_all add: newNotes_double newNotes_single)

lemma step_kept_fields:
  "snd (snd (step_note h c d pk used n)) = Some n' \<Longrightarrow>
   nid n' = nid n \<and> lane n' = lane n \<and> willAiHit n' = willAiHit n \<and> color n' = color n"
  by (auto simp add: step_note_kept split: if_splits)

text \<open>
  C8. With the draws of \<open>Math.random()\<close> in [0, 1): a spawn is double exactly when
  \<open>timeLeft \<le> 79\<close> and the draw is below 0.20 (probability 20% for a uniform draw); the
  lanes are then \<open>lane1\<close> and \<open>(lane1 + 1 + offset) mod 4\<close> with offset in 0..2, both in 0..3
  and distinct; otherwise one note is spawned in \<open>lane1\<close>, which takes each value k of 0..3
  exactly on the draws of [k/4, (k+1)/4) (uniform); every new note has \<open>willAiHit\<close> exactly
  when its own draw is below 0.70, starts with \<open>aiProcessed\<close> false, and a note kept by the
  loop body keeps its \<open>willAiHit\<close>.
\<close>

theorem C8_spawn_lanes_and_ai_flag:
  assumes "0 \<le> rLane1 r" and "rLane1 r < 1" and "0 \<le> rLane2 r" and "rLane2 r < 1"
  shows "isDoubleSpawn tleft r = (tleft \<le> 79 \<and> rDouble r < 0.20)
         \<and> map lane (newNotesToSpawn c i tleft r)
             = (if isDoubleSpawn tleft r then [lane1_of r, lane2_of r] else [lane1_of r])
         \<and> lane2_of r = (lane1_of r + 1 + nat \<lfloor>rLane2 r * 3\<rfloor>) mod 4
         \<and> nat \<lfloor>rLane2 r * 3\<rfloor> \<le> 2
         \<and> lane1_of r < 4 \<and> lane2_of r < 4 \<and> lane2_of r \<noteq> lane1_of r
         \<and> (lane1_of r = k) = (real k / 4 \<le> rLane1 r \<and> rLane1 r < (real k + 1) / 4)
         \<and> map willAiHit (newNotesToSpawn c i tleft r)
             = (if isDoubleSpawn tleft r then [rAi1 r < 0.70, rAi2 r < 0.70] else [rAi1 r < 0.70])
         \<and> list_all (\<lambda>n. \<not> aiProcessed n) (newNotesToSpawn c i tleft r)
         \<and> (case snd (snd (step_note h c d pk used n)) of
               None \<Rightarrow> True | Some n' \<Rightarrow> willAiHit n' = willAiHit n)"
proof -
  have l1: "lane1_of r < 4" using assms(1,2) by (rule lane1_range)
  have off: "nat \<lfloor>rLane2 r * 3\<rfloor> \<le> 2" using assms(3,4) by (rule offset_range)
  have l2: "lane2_of r \<noteq> lane1_of r \<and> lane2_of r < 4"
    unfolding lane2_of_def using lane2_distinct [OF l1 off] by simp
  have uni: "(lane1_of r = k) = (real k / 4 \<le> rLane1 r \<and> rLane1 r < (real k + 1) / 4)"
    using assms(1) by (rule lane1_uniform)
  have dbl: "isDoubleSpawn tleft r = (tleft \<le> 79 \<and> rDouble r < 0.20)"
    by (simp add: isDoubleSpawn_def)
  have lanes: "map lane (newNotesToSpawn c i tleft r)
             = (if isDoubleSpawn tleft r then [lane1_of r, lane2_of r] else [lane1_of r])"
    by (simp add: newNotes_double newNotes_single new_note_def)
  have ai: "map willAiHit (newNotesToSpawn c i tleft r)
             = (if isDoubleSpawn tleft r then [rAi1 r < 0.70, rAi2 r < 0.70] else [rAi1 r < 0.70])"
    by (simp add: newNotes_double newNotes_single new_note_def)
  have fresh: "list_all (\<lambda>n. \<not> aiProcessed n) (newNotesToSpawn c i tleft r)"
    by (cases "isDoubleSpawn tleft r") (simp_all add: newNotes_double newNotes_single new_note_def)
  have keep: "(case snd (snd (step_note h c d pk used n)) of
               None \<Rightarrow> True | Some n' \<Rightarrow> willAiHit n' = willAiHit n)"
    using step_kept_fields by (simp split: option.splits)
  have l2def: "lane2_of r = (lane1_of r + 1 + nat \<lfloor>rLane2 r * 3\<rfloor>) mod 4"
    by (simp add: lane2_of_def)
  show ?thesis using l1 off l2 uni dbl lanes ai fresh keep l2def by blast
qed

theorem C8_spawn_lanes_and_ai_flag_witness:
  "0 \<le> rLane1 ex_draws \<and> rLane1 ex_draws < 1 \<and> 0 \<le> rLane2 ex_draws \<and> rLane2 ex_draws < 1
   \<and> isDoubleSpawn 70 ex_draws \<and> \<not> isDoubleSpawn 100 ex_draws
   \<and> map lane (newNotesToSpawn ex_config 5 70 ex_draws) = [3, 2]
   \<and> map willAiHit (newNotesToSpawn ex_config 5 70 ex_draws) = [True, False]
   \<and> lane1_of ex_draws = 3 \<and> lane2_of ex_draws = 2"
proof -
  have h: "0 \<le> rLane1 ex_draws" "rLane1 ex_draws < 1" "0 \<le> rLane2 ex_draws"
    "rLane2 ex_draws < 1"
    by (simp_all add: ex_draws_def)
  have d: "isDoubleSpawn 70 ex_draws" "\<not> isDoubleSpawn 100 ex_draws"
    by (simp_all add: isDoubleSpawn_def ex_draws_def)
  have f: "\<lfloor>(9::real) * 4 / 10\<rfloor> = 3" "\<lfloor>(9::real) * 3 / 10\<rfloor> = 2"
    by (simp_all add: floor_eq_iff)
  have l: "lane1_of ex_draws = 3" "lane2_of ex_draws = 2"
    using f by (simp_all add: lane1_of_def lane2_of_def ex_draws_def)
  show ?thesis
    using h d l C8_spawn_lanes_and_ai_flag [OF h, of 70 ex_config 5 3]
    by (simp add: ex_draws_def)
qed

subsection \<open>Spawn gate and the set of active notes\<close>

lemma process_ids_subset:
  "set (map nid (snd (snd (process_notes h c d pk used ns)))) \<subseteq> set (map nid ns)"
proof (induction ns arbitrary: used)
  case Nil
  then show ?case by simp
next
  case (Cons n ns)
  let ?u = "fst (snd (step_note h c d pk used n))"
  have ih: "set (map nid (snd (snd (process_notes h c d pk ?u ns)))) \<subseteq> set (map nid ns)"
    by (rule Cons.IH)
  show ?case
  proof (cases "snd (snd (step_note h c d pk used n))")
    case None
    then show ?thesis unfolding process_notes_Cons using ih by auto
  next
    case (Some n')
    then have "nid n' = nid n" using step_kept_fields by blast
    then show ?thesis unfolding process_notes_Cons using ih Some by auto
  qed
qed


lemma spawned_reset:
  "spawned f (m\<lparr>keysUsedThisFrame := u\<rparr>) = spawned f m"
  by (simp add: spawned_def)

lemma spawn_stage_notes: "m_notes (spawn_stage f m) = m_notes m @ spawned f m"
  by (simp add: spawn_stage_def spawned_def)

lemma spawn_stage_nextId: "nextId (spawn_stage f m) = nextId m + length (spawned f m)"
  by (simp add: spawn_stage_def spawned_def)

lemma spawned_ids: "map nid (spawned f m) = [nextId m ..< nextId m + length (spawned f m)]"
  using newNotes_ids by (simp add: spawned_def)

lemma useFrame_idle: "\<not> f_isRacing f \<Longrightarrow> notesManager_useFrame f m = (m, [])"
  by (simp add: notesManager_useFrame_def)

lemma useFrame_racing_notes:
  "f_isRacing f \<Longrightarrow>
   m_notes (fst (notesManager_useFrame f m)) =
     snd (snd (process_notes (f_hitLineZ f) (f_config f) (f_delta f) (f_pressedKeys f)
                 [False, False, False, False] (m_notes m @ spawned f m)))"
  by (simp add: notesManager_useFrame_def Let_def split_beta spawn_stage_notes spawned_reset)
     (simp add: spawn_stage_def)

lemma useFrame_racing_nextId:
  "f_isRacing f \<Longrightarrow> nextId (fst (notesManager_useFrame f m)) = nextId m + length (spawned f m)"
  by (simp add: notesManager_useFrame_def Let_def split_beta spawn_stage_nextId spawned_reset)

lemma useFrame_ids_subset:
  "set (note_ids (fst (notesManager_useFrame f m)))
     \<subseteq> set (note_ids m) \<union> {nextId m ..< nextId (fst (notesManager_useFrame f m))}"
proof (cases "f_isRacing f")
  case False
  then show ?thesis by (simp add: useFrame_idle)
next
  case True
  have "set (note_ids (fst (notesManager_useFrame f m)))
          \<subseteq> set (map nid (m_notes m @ spawned f m))"
    unfolding note_ids_def useFrame_racing_notes [OF True] by (rule process_ids_subset)
  then show ?thesis
    unfolding useFrame_racing_nextId [OF True] by (simp add: note_ids_def spawned_ids)
qed






text \<open>
  C4. The spawn gate is closed exactly when \<open>timeLeft \<le> 0\<close>, or \<open>timeLeft \<le> 3\<close>, or
  \<open>58 < timeLeft \<le> 61\<close>; with the gate closed a frame spawns no note (no id is taken and no
  new id enters the active set); with the gate open a racing frame spawns exactly when the
  time since the last spawn exceeds the interval, and the notes spawned are appended to the
  active notes before the pass.
\<close>

theorem C4_spawn_gate:
  "canSpawn tleft = (\<not> (tleft \<le> 0 \<or> tleft \<le> 3 \<or> (58 < tleft \<and> tleft \<le> 61)))
   \<and> (\<not> canSpawn (f_timeLeft f) \<longrightarrow>
         spawned f m = []
         \<and> nextId (fst (notesManager_useFrame f m)) = nextId m
         \<and> set (note_ids (fst (notesManager_useFrame f m))) \<subseteq> set (note_ids m))
   \<and> (canSpawn (f_timeLeft f) \<longrightarrow>
         (spawned f m \<noteq> []) = (f_currentTime f - lastSpawnTime m > interval (f_config f)))
   \<and> (f_isRacing f \<longrightarrow>
         nextId (fst (notesManager_useFrame f m)) = nextId m + length (spawned f m)
         \<and> m_notes (spawn_stage f m) = m_notes m @ spawned f m)"
proof -
  have gate: "canSpawn tleft = (\<not> (tleft \<le> 0 \<or> tleft \<le> 3 \<or> (58 < tleft \<and> tleft \<le> 61)))"
    by (auto simp add: canSpawn_def Let_def)
  have closed: "spawned f m = []
         \<and> nextId (fst (notesManager_useFrame f m)) = nextId m
         \<and> set (note_ids (fst (notesManager_useFrame f m))) \<subseteq> set (note_ids m)"
    if c: "\<not> canSpawn (f_timeLeft f)"
  proof -
    have s: "spawned f m = []" using c by (simp add: spawned_def)
    have n: "nextId (fst (notesManager_useFrame f m)) = nextId m"
      by (cases "f_isRacing f") (simp_all add: useFrame_idle useFrame_racing_nextId s)
    have "set (note_ids (fst (notesManager_useFrame f m)))
            \<subseteq> set (note_ids m) \<union> {nextId m ..< nextId (fst (notesManager_useFrame f m))}"
      by (rule useFrame_ids_subset)
    then show ?thesis using s n by simp
  qed
  have opened: "(spawned f m \<noteq> []) = (f_currentTime f - lastSpawnTime m > interval (f_config f))"
    if c: "canSpawn (f_timeLeft f)"
    using c newNotes_nonempty by (simp add: spawned_def)
  have racing: "nextId (fst (notesManager_useFrame f m)) = nextId m + length (spawned f m)
         \<and> m_notes (spawn_stage f m) = m_notes m @ spawned f m"
    if r: "f_isRacing f"
    using r by (simp add: useFrame_racing_nextId spawn_stage_notes)
  show ?thesis using gate closed opened racing by blast
qed

theorem C4_spawn_gate_witness:
  "\<not> canSpawn (f_timeLeft ex_frame) \<and> f_isRacing ex_frame
   \<and> nextId (fst (notesManager_useFrame ex_frame ex_manager)) = nextId ex_manager
   \<and> canSpawn (f_timeLeft ex_spawn_frame) \<and> f_isRacing ex_spawn_frame
   \<and> f_currentTime ex_spawn_frame - lastSpawnTime initial_manager
       > interval (f_config ex_spawn_frame)
   \<and> spawned ex_spawn_frame initial_manager \<noteq> []
   \<and> nextId (fst (notesManager_useFrame ex_spawn_frame initial_manager)) = 2
   \<and> \<not> canSpawn 60 \<and> \<not> canSpawn 3 \<and> canSpawn 58 \<and> canSpawn 62"
proof -
  have a: "\<not> canSpawn (f_timeLeft ex_frame)" "f_isRacing ex_frame"
    by (simp_all add: canSpawn_def ex_frame_def)
  have b: "canSpawn (f_timeLeft ex_spawn_frame)" "f_isRacing ex_spawn_frame"
    "f_currentTime ex_spawn_frame - lastSpawnTime initial_manager
       > interval (f_config ex_spawn_frame)"
    by (simp_all add: canSpawn_def ex_spawn_frame_def initial_manager_def ex_config_def)
  have len: "length (spawned ex_spawn_frame initial_manager) = 2"
    using b(1,3)
    by (simp add: spawned_def newNotes_double isDoubleSpawn_def ex_spawn_frame_def ex_draws_def)
  have g: "\<not> canSpawn 60" "\<not> canSpawn 3" "canSpawn 58" "canSpawn 62"
    by (simp_all add: canSpawn_def)
  show ?thesis
    using a b g len C4_spawn_gate [of 60 ex_frame ex_manager]
      C4_spawn_gate [of 58 ex_spawn_frame initial_manager]
    by (simp add: initial_manager_def)
qed

subsection \<open>Deferred callbacks\<close>


























text \<open>
  The handle of \<open>startSequence\<close> itself is in no \<open>timers\<close> array, and the inner timers it
  creates after its effect run was cleaned up are pushed to an array no cleanup reads. In
  \<open>early_exit_trace\<close> the \<open>startSequence\<close> of the first entry (scheduled under
  \<open>raceId = 1\<close>) fires after the reset to \<open>raceId = 2\<close>, and its last inner callback sets
  \<open>isRacing\<close> while the countdown of the second entry has not started.
\<close>

lemma startSequence_survives_cleanup_example:
  "raceId (run early_exit_trace initial_app) = 2
   \<and> isRacing (run early_exit_trace initial_app)
   \<and> now (run early_exit_trace initial_app) = 9000
   \<and> map handle (pending (run early_exit_trace initial_app)) = [3, 4, 5, 6]
   \<and> map scheduled_gen (pending (run early_exit_trace initial_app)) = [2, 1, 1, 1]"
  by (simp add: early_exit_trace_def run_def initial_app_def handleStartRequest_def
      handleLoadingFinished_def handleExitToMain_def countdown_effect_def
      countdown_cleanup_def setTimeout_def clearTimeout_def resetGameState_def
      initial_scores_def Let_def)

subsection \<open>Misses in a pass and in a frame\<close>














subsection \<open>Notes left over in the race scene\<close>





















end
